theory Spec2Isabelle
  imports Main "HOL-Library.AList"
begin

section \<open>The job ledger of \<^verbatim>\<open>otter_downloader.py\<close> (class \<^verbatim>\<open>DownloadState\<close>)\<close>

text \<open>
  The ledger is the dictionary \<^verbatim>\<open>self.state\<close>. Python dictionaries keep insertion order and
  have one value per key; they are association lists here, read with \<open>map_of\<close> and written
  with \<open>AList.update\<close> (replace in place when the key is present, append otherwise).
  The three status strings \<^verbatim>\<open>"pending"\<close>, \<^verbatim>\<open>"success"\<close>, \<^verbatim>\<open>"failed"\<close> are a datatype.
  Every \<^verbatim>\<open>datetime.now().isoformat()\<close> is a parameter \<open>now\<close> of the operation that reads
  the clock. Writing the state file is modelled as succeeding.
\<close>

datatype status = Pending | Success | Failed

record meeting_info =
  mi_id :: string
  mi_title :: string
  mi_url :: string
  mi_status :: status
  mi_discovered_at :: string
  mi_download_path :: "string option"
  mi_file_size :: "int option"
  mi_method_used :: "string option"
  mi_error :: "string option"

record attempt =
  at_timestamp :: string
  at_method :: string
  at_success :: bool
  at_error :: "string option"

record run_record =
  rr_timestamp :: string
  rr_meetings_processed :: nat
  rr_successful :: nat
  rr_failed :: nat

record ledger =
  session_created :: "string option"
  last_run :: "string option"
  meetings :: "(string \<times> meeting_info) list"
  download_attempts :: "(string \<times> attempt list) list"
  successful_downloads :: "string list"
  failed_downloads :: "string list"
  total_meetings_found :: nat
  run_history :: "run_record list"

text \<open>A \<^verbatim>\<open>DownloadState\<close> object: the dictionary in memory and the content of the state file.\<close>

record download_state =
  state :: ledger
  state_file :: "ledger option"

definition empty_ledger :: ledger where
  "empty_ledger = \<lparr>session_created = None, last_run = None, meetings = [],
     download_attempts = [], successful_downloads = [], failed_downloads = [],
     total_meetings_found = 0, run_history = []\<rparr>"

text \<open>\<^verbatim>\<open>_load_state\<close>: the content of the file when it exists and parses, a new ledger otherwise.\<close>

definition load_state :: "ledger option \<Rightarrow> ledger" where
  "load_state f = (case f of Some l \<Rightarrow> l | None \<Rightarrow> empty_ledger)"

definition new_download_state :: "ledger option \<Rightarrow> download_state" where
  "new_download_state f = \<lparr>state = load_state f, state_file = f\<rparr>"

definition save :: "download_state \<Rightarrow> string \<Rightarrow> download_state" where
  "save s now =
     (let st = (state s)\<lparr>last_run := Some now\<rparr>
      in \<lparr>state = st, state_file = Some st\<rparr>)"

definition has_key :: "('k \<times> 'v) list \<Rightarrow> 'k \<Rightarrow> bool" where
  "has_key d k = (map_of d k \<noteq> None)"

definition new_meeting :: "string \<Rightarrow> string \<Rightarrow> string \<Rightarrow> string \<Rightarrow> meeting_info" where
  "new_meeting meeting_id title url now =
     \<lparr>mi_id = meeting_id, mi_title = title, mi_url = url, mi_status = Pending,
      mi_discovered_at = now, mi_download_path = None, mi_file_size = None,
      mi_method_used = None, mi_error = None\<rparr>"

definition register_meeting ::
  "download_state \<Rightarrow> string \<Rightarrow> string \<Rightarrow> string \<Rightarrow> string \<Rightarrow> download_state" where
  "register_meeting s meeting_id title url now =
     save (if \<not> has_key (meetings (state s)) meeting_id
           then s\<lparr>state := (state s)\<lparr>meetings :=
                  AList.update meeting_id (new_meeting meeting_id title url now)
                    (meetings (state s))\<rparr>\<rparr>
           else s) now"

definition record_attempt ::
  "download_state \<Rightarrow> string \<Rightarrow> string \<Rightarrow> bool \<Rightarrow> string option \<Rightarrow> string \<Rightarrow> download_state" where
  "record_attempt s meeting_id method success err now =
     (let atts = download_attempts (state s);
          atts1 = (if \<not> has_key atts meeting_id then AList.update meeting_id [] atts else atts);
          old = (case map_of atts1 meeting_id of Some l \<Rightarrow> l | None \<Rightarrow> []);
          rec = \<lparr>at_timestamp = now, at_method = method, at_success = success, at_error = err\<rparr>
      in save (s\<lparr>state := (state s)\<lparr>download_attempts :=
                 AList.update meeting_id (old @ [rec]) atts1\<rparr>\<rparr>) now)"

definition mark_success ::
  "download_state \<Rightarrow> string \<Rightarrow> string \<Rightarrow> string \<Rightarrow> int \<Rightarrow> string \<Rightarrow> download_state" where
  "mark_success s meeting_id file_path method file_size now =
     (let st = state s;
          ms = (case map_of (meetings st) meeting_id of
                  Some e \<Rightarrow> AList.update meeting_id
                     (e\<lparr>mi_status := Success, mi_download_path := Some file_path,
                        mi_file_size := Some file_size, mi_method_used := Some method\<rparr>)
                     (meetings st)
                | None \<Rightarrow> meetings st);
          succ = (if meeting_id \<notin> set (successful_downloads st)
                  then successful_downloads st @ [meeting_id] else successful_downloads st);
          failed = (if meeting_id \<in> set (failed_downloads st)
                    then remove1 meeting_id (failed_downloads st) else failed_downloads st)
      in save (s\<lparr>state := st\<lparr>meetings := ms, successful_downloads := succ,
                              failed_downloads := failed\<rparr>\<rparr>) now)"

definition mark_failure :: "download_state \<Rightarrow> string \<Rightarrow> string \<Rightarrow> download_state" where
  "mark_failure s meeting_id now =
     (let st = state s;
          ms = (case map_of (meetings st) meeting_id of
                  Some e \<Rightarrow> AList.update meeting_id (e\<lparr>mi_status := Failed\<rparr>) (meetings st)
                | None \<Rightarrow> meetings st);
          failed = (if meeting_id \<notin> set (failed_downloads st)
                    then failed_downloads st @ [meeting_id] else failed_downloads st)
      in save (s\<lparr>state := st\<lparr>meetings := ms, failed_downloads := failed\<rparr>\<rparr>) now)"

definition get_pending_meetings :: "download_state \<Rightarrow> meeting_info list" where
  "get_pending_meetings s =
     map snd (filter (\<lambda>(meeting_id, info). mi_status info = Pending \<or> mi_status info = Failed)
                (meetings (state s)))"

definition is_downloaded :: "download_state \<Rightarrow> string \<Rightarrow> bool" where
  "is_downloaded s meeting_id = (meeting_id \<in> set (successful_downloads (state s)))"

record stats =
  stat_total_meetings :: nat
  stat_successful :: nat
  stat_failed :: nat
  stat_pending :: nat

definition get_stats :: "download_state \<Rightarrow> stats" where
  "get_stats s = \<lparr>stat_total_meetings = length (meetings (state s)),
     stat_successful = length (successful_downloads (state s)),
     stat_failed = length (failed_downloads (state s)),
     stat_pending = length (get_pending_meetings s)\<rparr>"

text \<open>The status stored for an id, if the id is registered.\<close>

definition status_of :: "download_state \<Rightarrow> string \<Rightarrow> status option" where
  "status_of s meeting_id = map_option mi_status (map_of (meetings (state s)) meeting_id)"

subsection \<open>Sequences of ledger operations\<close>

text \<open>One constructor per mutating method of \<^verbatim>\<open>DownloadState\<close>, with the method's arguments and
  the clock reading.\<close>

datatype ledger_op =
    Register string string string string
  | RecordAttempt string string bool "string option" string
  | MarkSuccess string string string int string
  | MarkFailure string string

fun apply_op :: "download_state \<Rightarrow> ledger_op \<Rightarrow> download_state" where
  "apply_op s (Register i t u now) = register_meeting s i t u now"
| "apply_op s (RecordAttempt i m b e now) = record_attempt s i m b e now"
| "apply_op s (MarkSuccess i p m n now) = mark_success s i p m n now"
| "apply_op s (MarkFailure i now) = mark_failure s i now"

fun run_ops :: "download_state \<Rightarrow> ledger_op list \<Rightarrow> download_state" where
  "run_ops s [] = s"
| "run_ops s (x # xs) = run_ops (apply_op s x) xs"

fun is_mark_failure_of :: "string \<Rightarrow> ledger_op \<Rightarrow> bool" where
  "is_mark_failure_of i (MarkFailure j now) = (j = i)"
| "is_mark_failure_of i _ = False"

definition no_mark_failure_of :: "string \<Rightarrow> ledger_op list \<Rightarrow> bool" where
  "no_mark_failure_of i ops = list_all (\<lambda>x. \<not> is_mark_failure_of i x) ops"

text \<open>
  \<^verbatim>\<open>download_meeting\<close> returns at once when \<^verbatim>\<open>is_downloaded\<close> holds and reaches
  \<^verbatim>\<open>mark_failure\<close> only when no strategy called \<^verbatim>\<open>mark_success\<close>. A sequence is
  \<open>guarded\<close> when every \<open>MarkFailure\<close> in it meets an id that is not downloaded at that moment.
\<close>

fun guarded :: "download_state \<Rightarrow> ledger_op list \<Rightarrow> bool" where
  "guarded s [] = True"
| "guarded s (x # xs) =
     ((case x of MarkFailure i now \<Rightarrow> \<not> is_downloaded s i | _ \<Rightarrow> True)
      \<and> guarded (apply_op s x) xs)"

text \<open>What a Python dictionary written by \<^verbatim>\<open>register_meeting\<close> satisfies: one entry per key,
  and every entry carries its key in the field \<^verbatim>\<open>"id"\<close>.\<close>

definition dict_ok :: "download_state \<Rightarrow> bool" where
  "dict_ok s = (distinct (map fst (meetings (state s))) \<and>
                list_all (\<lambda>(k, e). mi_id e = k) (meetings (state s)))"

text \<open>The failed list has no repetition and shares no id with the successful list.\<close>

definition lists_ok :: "download_state \<Rightarrow> bool" where
  "lists_ok s = (distinct (failed_downloads (state s)) \<and>
     list_all (\<lambda>i. i \<notin> set (failed_downloads (state s))) (successful_downloads (state s)))"

subsection \<open>Example ledgers\<close>

definition s0 :: download_state where
  "s0 = new_download_state None"

definition s_reg :: download_state where
  "s_reg = register_meeting s0 ''m1'' ''Standup'' ''https://otter.ai/u/m1'' ''t0''"

definition s_succ :: download_state where
  "s_succ = mark_success s_reg ''m1'' ''downloads/Standup_m1.txt'' ''text_extraction'' 2048 ''t1''"

definition ops_retry :: "ledger_op list" where
  "ops_retry = [Register ''m1'' ''Standup'' ''https://otter.ai/u/m1'' ''t0'',
                RecordAttempt ''m1'' ''text_extraction'' False
                  (Some ''Insufficient text content found'') ''t1'',
                MarkFailure ''m1'' ''t2'',
                RecordAttempt ''m1'' ''text_extraction'' True None ''t3'',
                MarkSuccess ''m1'' ''downloads/Standup_m1.txt'' ''text_extraction'' 2048 ''t4'']"

definition ops_later :: "ledger_op list" where
  "ops_later = [Register ''m1'' ''Standup (renamed)'' ''https://otter.ai/u/m1'' ''t5'',
                Register ''m2'' ''Retro'' ''https://otter.ai/u/m2'' ''t6'',
                RecordAttempt ''m2'' ''text_extraction'' False None ''t7'',
                MarkFailure ''m2'' ''t8'',
                MarkSuccess ''m1'' ''downloads/Standup_m1.png'' ''screenshot'' 4096 ''t9'']"

section \<open>The ledger of \<^verbatim>\<open>otter_parallel.py\<close> (class \<^verbatim>\<open>ParallelState\<close>)\<close>

text \<open>
  \<^verbatim>\<open>ParallelState\<close> reads and writes the same state file and guards its dictionary with
  \<^verbatim>\<open>self.lock = Lock()\<close>, a \<^verbatim>\<open>threading.Lock\<close>. Such a lock is not reentrant: acquiring
  it while it is held blocks until it is released, whoever holds it. The field \<open>p_lock\<close> says
  whether the lock is held. A method is a function to \<open>option\<close>: \<open>None\<close> means that the call
  never returns. Within one call the only holder of a held lock is the caller itself, which is
  waiting, so \<open>acquire\<close> on a held lock is \<open>None\<close>. Leaving a \<^verbatim>\<open>with self.lock:\<close> block is
  \<open>release\<close>.
\<close>

record parallel_state =
  p_state :: ledger
  p_state_file :: "ledger option"
  p_lock :: bool
  download_count :: nat
  total_to_download :: nat

definition new_parallel_state :: "ledger option \<Rightarrow> parallel_state" where
  "new_parallel_state f = \<lparr>p_state = load_state f, p_state_file = f, p_lock = False,
     download_count = 0, total_to_download = 0\<rparr>"

definition acquire :: "parallel_state \<Rightarrow> parallel_state option" where
  "acquire ps = (if p_lock ps then None else Some (ps\<lparr>p_lock := True\<rparr>))"

definition release :: "parallel_state \<Rightarrow> parallel_state" where
  "release ps = ps\<lparr>p_lock := False\<rparr>"

definition p_save :: "parallel_state \<Rightarrow> string \<Rightarrow> parallel_state option" where
  "p_save ps now =
     (case acquire ps of
        None \<Rightarrow> None
      | Some ps1 \<Rightarrow>
          (let st = (p_state ps1)\<lparr>last_run := Some now\<rparr>
           in Some (release (ps1\<lparr>p_state := st, p_state_file := Some st\<rparr>))))"

definition p_is_downloaded :: "parallel_state \<Rightarrow> string \<Rightarrow> (bool \<times> parallel_state) option" where
  "p_is_downloaded ps meeting_id =
     (case acquire ps of
        None \<Rightarrow> None
      | Some ps1 \<Rightarrow>
          Some (meeting_id \<in> set (successful_downloads (p_state ps1)), release ps1))"

text \<open>The statements of \<^verbatim>\<open>mark_success\<close> between taking the lock and calling \<^verbatim>\<open>self.save()\<close>.\<close>

definition p_mark_success_update ::
  "parallel_state \<Rightarrow> string \<Rightarrow> string \<Rightarrow> int \<Rightarrow> parallel_state" where
  "p_mark_success_update ps meeting_id path file_size =
     (let st = p_state ps;
          succ = (if meeting_id \<notin> set (successful_downloads st)
                  then successful_downloads st @ [meeting_id] else successful_downloads st);
          ms = (case map_of (meetings st) meeting_id of
                  Some e \<Rightarrow> AList.update meeting_id
                     (e\<lparr>mi_status := Success, mi_download_path := Some path,
                        mi_file_size := Some file_size,
                        mi_method_used := Some ''text_extraction''\<rparr>)
                     (meetings st)
                | None \<Rightarrow> meetings st)
      in ps\<lparr>p_state := st\<lparr>meetings := ms, successful_downloads := succ\<rparr>,
            download_count := download_count ps + 1\<rparr>)"

definition p_mark_success ::
  "parallel_state \<Rightarrow> string \<Rightarrow> string \<Rightarrow> int \<Rightarrow> string \<Rightarrow> parallel_state option" where
  "p_mark_success ps meeting_id path file_size now =
     (case acquire ps of
        None \<Rightarrow> None
      | Some ps1 \<Rightarrow>
          (case p_save (p_mark_success_update ps1 meeting_id path file_size) now of
             None \<Rightarrow> None
           | Some ps2 \<Rightarrow> Some (release ps2)))"

text \<open>The statements of \<^verbatim>\<open>mark_failure\<close> between taking the lock and calling \<^verbatim>\<open>self.save()\<close>.\<close>

definition p_mark_failure_update :: "parallel_state \<Rightarrow> string \<Rightarrow> string \<Rightarrow> parallel_state" where
  "p_mark_failure_update ps meeting_id err =
     (let st = p_state ps;
          failed = (if meeting_id \<notin> set (failed_downloads st)
                    then failed_downloads st @ [meeting_id] else failed_downloads st);
          ms = (case map_of (meetings st) meeting_id of
                  Some e \<Rightarrow> AList.update meeting_id
                     (e\<lparr>mi_status := Failed, mi_error := Some err\<rparr>) (meetings st)
                | None \<Rightarrow> meetings st)
      in ps\<lparr>p_state := st\<lparr>meetings := ms, failed_downloads := failed\<rparr>\<rparr>)"

definition p_mark_failure ::
  "parallel_state \<Rightarrow> string \<Rightarrow> string \<Rightarrow> string \<Rightarrow> parallel_state option" where
  "p_mark_failure ps meeting_id err now =
     (case acquire ps of
        None \<Rightarrow> None
      | Some ps1 \<Rightarrow>
          (case p_save (p_mark_failure_update ps1 meeting_id err) now of
             None \<Rightarrow> None
           | Some ps2 \<Rightarrow> Some (release ps2)))"


definition p_get_progress :: "parallel_state \<Rightarrow> ((nat \<times> nat) \<times> parallel_state) option" where
  "p_get_progress ps =
     (case acquire ps of
        None \<Rightarrow> None
      | Some ps1 \<Rightarrow>
          Some ((length (successful_downloads (p_state ps1)), length (meetings (p_state ps1))),
                release ps1))"

section \<open>Discovery: the scrolling loop of \<^verbatim>\<open>scroll_to_load_all\<close>\<close>










section \<open>The filename sanitizers\<close>

text \<open>
  A Python string is a list of characters; a \<open>char\<close> stands for one code point below 256.
  \<open>illegal_chars\<close> is the class \<^verbatim>\<open>[<>:"/\\|?*\n\r\t]\<close> of \<^verbatim>\<open>otter_downloader.py\<close>,
  \<open>is_space\<close> is \<^verbatim>\<open>\s\<close> on such code points (what \<^verbatim>\<open>str.isspace\<close> accepts), and
  \<open>sub_runs P r\<close> is \<^verbatim>\<open>re.sub\<close> of a pattern \<^verbatim>\<open>X+\<close> by one character: every maximal run of
  characters in \<open>P\<close> becomes the single character \<open>r\<close>. \<open>strip_chars\<close> is \<^verbatim>\<open>str.strip\<close>.
\<close>

definition illegal_chars :: "char list" where
  "illegal_chars = [CHR ''<'', CHR ''>'', CHR '':'', CHR 0x22, CHR ''/'', CHR 0x5C, CHR ''|'',
                    CHR ''?'', CHR ''*'', CHR 0x0A, CHR 0x0D, CHR 0x09]"

definition is_space :: "char \<Rightarrow> bool" where
  "is_space c = (c \<in> set [CHR 0x09, CHR 0x0A, CHR 0x0B, CHR 0x0C, CHR 0x0D, CHR 0x1C, CHR 0x1D,
                           CHR 0x1E, CHR 0x1F, CHR 0x20, CHR 0x85, CHR 0xA0])"

definition is_underscore :: "char \<Rightarrow> bool" where
  "is_underscore c = (c = CHR ''_'')"

function sub_runs :: "(char \<Rightarrow> bool) \<Rightarrow> char \<Rightarrow> string \<Rightarrow> string" where
  "sub_runs P r [] = []"
| "sub_runs P r (c # cs) =
     (if P c then r # sub_runs P r (dropWhile P cs) else c # sub_runs P r cs)"
  by pat_completeness auto
termination
  by (relation "measure (\<lambda>(P, r, s). length s)")
     (auto simp: length_dropWhile_le less_Suc_eq_le)

definition strip_chars :: "(char \<Rightarrow> bool) \<Rightarrow> string \<Rightarrow> string" where
  "strip_chars P s = rev (dropWhile P (rev (dropWhile P s)))"

definition sanitize_filename :: "string \<Rightarrow> string" where
  "sanitize_filename name =
     (let name1 = filter (\<lambda>c. c \<notin> set illegal_chars) name;
          name2 = sub_runs is_space (CHR ''_'') name1;
          name3 = sub_runs is_underscore (CHR ''_'') name2
      in strip_chars is_underscore (take 80 name3))"

text \<open>The sanitizer of \<^verbatim>\<open>otter_parallel.py\<close>: its class has no tab, a character of the class
  is replaced by an underscore, whitespace is not touched, and the bound is the parameter
  \<^verbatim>\<open>max_length\<close> (100 when omitted). \<open>py_slice_to n\<close> is the slice \<^verbatim>\<open>[:n]\<close>, a negative \<open>n\<close>
  counting from the end.\<close>

definition py_slice_to :: "int \<Rightarrow> 'a list \<Rightarrow> 'a list" where
  "py_slice_to n s = (if 0 \<le> n then take (nat n) s else take (length s - nat (- n)) s)"

definition p_illegal_chars :: "char list" where
  "p_illegal_chars = [CHR ''<'', CHR ''>'', CHR '':'', CHR 0x22, CHR ''/'', CHR 0x5C, CHR ''|'',
                      CHR ''?'', CHR ''*'', CHR 0x0A, CHR 0x0D]"

definition p_sanitize_filename :: "string \<Rightarrow> int \<Rightarrow> string" where
  "p_sanitize_filename title max_length =
     (let safe1 = map (\<lambda>c. if c \<in> set p_illegal_chars then CHR ''_'' else c) title;
          safe2 = sub_runs is_underscore (CHR ''_'') safe1
      in strip_chars is_underscore (py_slice_to max_length safe2))"

text \<open>No two neighbours are both in \<open>P\<close>.\<close>

fun no_adjacent :: "(char \<Rightarrow> bool) \<Rightarrow> string \<Rightarrow> bool" where
  "no_adjacent P [] = True"
| "no_adjacent P [c] = True"
| "no_adjacent P (c # d # cs) = (\<not> (P c \<and> P d) \<and> no_adjacent P (d # cs))"

text \<open>Neither the first nor the last character is in \<open>P\<close>.\<close>

definition stripped :: "(char \<Rightarrow> bool) \<Rightarrow> string \<Rightarrow> bool" where
  "stripped P s = (s \<noteq> [] \<longrightarrow> \<not> P (hd s) \<and> \<not> P (last s))"

text \<open>What a sanitizer promises of its result: none of the characters \<open>bad\<close>, no two
  underscores in a row, at most \<open>n\<close> characters, no underscore at either end.\<close>

definition clean_name :: "char list \<Rightarrow> nat \<Rightarrow> string \<Rightarrow> bool" where
  "clean_name bad n s =
     ((\<forall>c\<in>set s. c \<notin> set bad) \<and> no_adjacent is_underscore s \<and> length s \<le> n
      \<and> stripped is_underscore s)"

definition title1 :: string where
  "title1 = ''  Weekly: sync / notes __ 2024?  ''"

section \<open>Pages and the text extraction strategy of \<^verbatim>\<open>otter_downloader.py\<close>\<close>

text \<open>
  A loaded page is what the browser driver answers: for a selector the inner texts of the
  matching elements in document order (\<^verbatim>\<open>query_selector_all\<close>; \<^verbatim>\<open>query_selector\<close> gives the
  first), the result of the state script of \<^verbatim>\<open>strategy_direct_api\<close> (the length of the JSON
  text and its parsed value, or nothing), the visible text of the body, and the size of the
  screenshot file when one gets written. The driver's calls on a loaded page are taken not to
  raise, and a file that is written is written in full; file sizes count UTF-8 bytes.
\<close>

record meeting =
  m_id :: string
  m_title :: string
  m_url :: string

datatype json = JString string | JObject "(string \<times> json) list" | JArray "json list" | JOther

record page =
  elements :: "string \<Rightarrow> string list"
  state_script :: "(nat \<times> json) option"
  body_text :: "string option"
  screenshot :: "int option"

definition query_selector_all :: "page \<Rightarrow> string \<Rightarrow> string list" where
  "query_selector_all pg selector = elements pg selector"

definition query_selector :: "page \<Rightarrow> string \<Rightarrow> string option" where
  "query_selector pg selector = (case elements pg selector of [] \<Rightarrow> None | t # ts \<Rightarrow> Some t)"

text \<open>The newline character.\<close>

definition nl :: char where
  "nl = CHR 0x0A"

text \<open>\<^verbatim>\<open>str.split(sep)\<close>, \<^verbatim>\<open>sep.join(xs)\<close>, \<^verbatim>\<open>str.strip()\<close>, \<^verbatim>\<open>str.lower()\<close> and \<^verbatim>\<open>x in s\<close>.\<close>

fun split_on :: "char \<Rightarrow> string \<Rightarrow> string list" where
  "split_on sep [] = [[]]"
| "split_on sep (c # cs) =
     (if c = sep then [] # split_on sep cs
      else (case split_on sep cs of l # ls \<Rightarrow> (c # l) # ls | [] \<Rightarrow> [[c]]))"

fun join_with :: "string \<Rightarrow> string list \<Rightarrow> string" where
  "join_with sep [] = []"
| "join_with sep [x] = x"
| "join_with sep (x # y # ys) = x @ sep @ join_with sep (y # ys)"

definition py_strip :: "string \<Rightarrow> string" where
  "py_strip s = strip_chars is_space s"

definition py_lower_char :: "char \<Rightarrow> char" where
  "py_lower_char c =
     (let n = (of_char c :: nat)
      in if (65 \<le> n \<and> n \<le> 90) \<or> (192 \<le> n \<and> n \<le> 222 \<and> n \<noteq> 215)
         then char_of (n + 32) else c)"

definition py_lower :: "string \<Rightarrow> string" where
  "py_lower s = map py_lower_char s"

fun contains :: "string \<Rightarrow> string \<Rightarrow> bool" where
  "contains x [] = (x = [])"
| "contains x (c # cs) = (take (length x) (c # cs) = x \<or> contains x cs)"

definition noise_phrases :: "string list" where
  "noise_phrases = [''sign out'', ''settings'', ''help'', ''export'', ''share'']"

definition keep_line :: "string \<Rightarrow> bool" where
  "keep_line line = (line \<noteq> [] \<and> length line > 5 \<and>
                     \<not> list_ex (\<lambda>x. contains x (py_lower line)) noise_phrases)"

definition clean_text :: "string \<Rightarrow> string" where
  "clean_text combined_text =
     join_with [nl] (filter keep_line (map py_strip (split_on nl combined_text)))"

definition transcript_selectors :: "string list" where
  "transcript_selectors = [''.otter-transcript-container'', ''[class*=\"transcript\"]'',
     ''[class*=\"speech\"]'', ''.monologue'', ''.paragraph'']"

definition main_selectors :: "string list" where
  "main_selectors = [''main'', ''[role=\"main\"]'', ''#root'', ''.app-content'']"

definition main_container_selector :: string where
  "main_container_selector = ''.otter-transcript-container, main, [role=\"main\"]''"

text \<open>The loop over \<^verbatim>\<open>transcript_selectors\<close>: the texts longer than 50 characters of the
  first selector that has any.\<close>

fun first_selector_texts :: "page \<Rightarrow> string list \<Rightarrow> string list" where
  "first_selector_texts pg [] = []"
| "first_selector_texts pg (selector # selectors) =
     (let all_text = filter (\<lambda>text. text \<noteq> [] \<and> length text > 50)
                       (map py_strip (query_selector_all pg selector))
      in if all_text \<noteq> [] then all_text else first_selector_texts pg selectors)"

text \<open>The loop over \<^verbatim>\<open>main_selectors\<close>: each element found replaces \<^verbatim>\<open>combined_text\<close>, and
  the loop stops at the first text longer than 200 characters.\<close>

fun main_fallback :: "page \<Rightarrow> string list \<Rightarrow> string \<Rightarrow> string" where
  "main_fallback pg [] combined_text = combined_text"
| "main_fallback pg (selector # selectors) combined_text =
     (case query_selector pg selector of
        None \<Rightarrow> main_fallback pg selectors combined_text
      | Some text \<Rightarrow> if length text > 200 then text else main_fallback pg selectors text)"

text \<open>\<^verbatim>\<open>combined_text\<close> as it stands before the clean-up.\<close>

definition gather_text :: "page \<Rightarrow> string" where
  "gather_text pg =
     (let all_text0 = (case query_selector pg main_container_selector of
                         Some combined_text \<Rightarrow> if length combined_text > 500 then [combined_text] else []
                       | None \<Rightarrow> []);
          all_text = (if all_text0 = [] then first_selector_texts pg transcript_selectors
                      else all_text0);
          combined_text = join_with [nl, nl] all_text
      in if length combined_text < 100 then main_fallback pg main_selectors combined_text
         else combined_text)"

text \<open>The clean text when the strategy succeeds.\<close>

definition extracted_text :: "page \<Rightarrow> string option" where
  "extracted_text pg =
     (let combined_text = gather_text pg
      in if combined_text \<noteq> [] \<and> length combined_text > 100
         then (let clean = clean_text combined_text
               in if length clean > 100 then Some clean else None)
         else None)"

definition download_dir :: string where
  "download_dir = ''downloads''"


definition utf8_size :: "string \<Rightarrow> int" where
  "utf8_size s = sum_list (map (\<lambda>c. if (of_char c :: nat) < 128 then 1 else 2) s)"





subsection \<open>Example pages\<close>


definition page_with_container :: "string \<Rightarrow> page" where
  "page_with_container text =
     \<lparr>elements = (\<lambda>selector. if selector = ''.otter-transcript-container''
                                  \<or> selector = main_container_selector then [text] else []),
      state_script = None, body_text = Some text, screenshot = Some 4096\<rparr>"

definition page99 :: page where
  "page99 = page_with_container (replicate 99 (CHR ''a''))"

definition page101 :: page where
  "page101 = page_with_container (replicate 101 (CHR ''a'') @ [nl] @ ''Settings'' @ [nl] @ ''Help'')"

section \<open>The sequential orchestrator\<close>

definition transcript_keys :: "string list" where
  "transcript_keys = [''transcript'', ''text'', ''content'', ''body'', ''speech'', ''monologue'']"

text \<open>The first result of a list of results that is there and accepted; the results that are
  there.\<close>

fun first_accepted :: "('a \<Rightarrow> bool) \<Rightarrow> 'a option list \<Rightarrow> 'a option" where
  "first_accepted ok [] = None"
| "first_accepted ok (None # rs) = first_accepted ok rs"
| "first_accepted ok (Some r # rs) = (if ok r then Some r else first_accepted ok rs)"

fun somes :: "'a option list \<Rightarrow> 'a list" where
  "somes [] = []"
| "somes (None # rs) = somes rs"
| "somes (Some r # rs) = r # somes rs"

text \<open>\<^verbatim>\<open>extract_transcript_from_data\<close>: the search of the parsed state for transcript text, to
  depth 10. A dictionary is tried under the known keys first, then through all its values; a
  list gives the texts of its items joined by newlines.\<close>

function extract_transcript_from_data :: "json \<Rightarrow> nat \<Rightarrow> string option" where
  "extract_transcript_from_data data depth =
     (if depth > 10 then None
      else case data of
          JString str \<Rightarrow> if length str > 200 then Some str else None
        | JObject d \<Rightarrow>
            (case first_accepted (\<lambda>result. result \<noteq> [])
                    (map (\<lambda>value. extract_transcript_from_data value (depth + 1))
                       (somes (map (map_of d) transcript_keys))) of
               Some result \<Rightarrow> Some result
             | None \<Rightarrow>
                 first_accepted (\<lambda>result. result \<noteq> [] \<and> length result > 200)
                   (map (\<lambda>value. extract_transcript_from_data value (depth + 1)) (map snd d)))
        | JArray items \<Rightarrow>
            (let texts = filter (\<lambda>result. result \<noteq> [])
                           (somes (map (\<lambda>item. extract_transcript_from_data item (depth + 1))
                                     items))
             in if texts \<noteq> [] then Some (join_with [nl] texts) else None)
        | JOther \<Rightarrow> None)"
  by pat_completeness auto
termination
  by (relation "measure (\<lambda>(data, depth). 11 - depth)") auto

text \<open>The text \<^verbatim>\<open>strategy_direct_api\<close> writes, when it succeeds: the script must return more than
  1000 characters and the search more than 100.\<close>

definition direct_api_text :: "page \<Rightarrow> string option" where
  "direct_api_text pg =
     (case state_script pg of
        None \<Rightarrow> None
      | Some (n, data) \<Rightarrow>
          if n > 1000
          then (case extract_transcript_from_data data 0 of
                  Some transcript_text \<Rightarrow>
                    if transcript_text \<noteq> [] \<and> length transcript_text > 100
                    then Some transcript_text else None
                | None \<Rightarrow> None)
          else None)"



text \<open>What \<^verbatim>\<open>page.goto\<close> does: it loads a page, or raises \<^verbatim>\<open>PlaywrightTimeout\<close> or another
  exception, each with its message.\<close>

datatype page_result = Loaded page | Timeout string | Raised string

















section \<open>The parallel orchestrator\<close>

text \<open>The worker of \<^verbatim>\<open>otter_parallel.py\<close>. Its first method collects, over five selectors, the
  inner texts longer than 50 characters; its second reads \<^verbatim>\<open>document.body.innerText\<close>.\<close>

definition p_content_selectors :: "string list" where
  "p_content_selectors = [''[class*=\"transcript\"]'', ''[class*=\"speech\"]'', ''.otterTranscript'',
     ''[data-testid*=\"transcript\"]'', ''main'']"

definition p_header :: "meeting_info \<Rightarrow> string \<Rightarrow> string \<Rightarrow> string" where
  "p_header meeting method now =
     ''Meeting: '' @ (case split_on nl (mi_title meeting) of l # ls \<Rightarrow> l | [] \<Rightarrow> []) @ [nl] @
     ''URL: '' @ mi_url meeting @ [nl] @
     ''Downloaded: '' @ now @ [nl] @ ''Method: '' @ method @ [nl] @
     replicate 60 (CHR ''='') @ [nl, nl]"

definition content_parts :: "page \<Rightarrow> string list" where
  "content_parts pg =
     concat (map (\<lambda>selector. filter (\<lambda>text. text \<noteq> [] \<and> length text > 50)
                                (query_selector_all pg selector))
               p_content_selectors)"

definition extract_transcript_text :: "page \<Rightarrow> meeting_info \<Rightarrow> string \<Rightarrow> string" where
  "extract_transcript_text pg meeting now =
     (let parts = content_parts pg
      in if parts \<noteq> []
         then p_header meeting ''parallel_text_extraction'' now @ join_with [nl] parts
         else (case body_text pg of
                 Some b \<Rightarrow> if b \<noteq> [] \<and> length b > 200
                           then p_header meeting ''parallel_body_extraction'' now @ b else []
               | None \<Rightarrow> []))"

text \<open>The call of the ledger a worker task makes when the meeting is not downloaded:
  \<^verbatim>\<open>mark_success(meeting_id, save_path, file_size)\<close> or \<^verbatim>\<open>mark_failure(meeting_id, error)\<close>.
  \<open>worker_call\<close> is \<^verbatim>\<open>download_single_transcript\<close> from the navigation to that call.\<close>

datatype ledger_call = CallMarkSuccess string string int | CallMarkFailure string string

definition p_save_path :: "meeting_info \<Rightarrow> string" where
  "p_save_path meeting =
     download_dir @ ''/'' @ p_sanitize_filename (take 50 (mi_title meeting)) 100 @ ''_'' @
     take 15 (mi_id meeting) @ ''.txt''"

definition worker_call :: "meeting_info \<Rightarrow> page_result \<Rightarrow> string \<Rightarrow> ledger_call" where
  "worker_call meeting response now =
     (case response of
        Loaded pg \<Rightarrow>
          (let transcript_text = extract_transcript_text pg meeting now
           in if transcript_text \<noteq> [] \<and> length transcript_text > 100
              then CallMarkSuccess (mi_id meeting) (p_save_path meeting) (utf8_size transcript_text)
              else CallMarkFailure (mi_id meeting) ''No transcript content found'')
      | Timeout e \<Rightarrow> CallMarkFailure (mi_id meeting) e
      | Raised e \<Rightarrow> CallMarkFailure (mi_id meeting) e)"

definition download_single_transcript ::
  "parallel_state \<Rightarrow> meeting_info \<Rightarrow> page_result \<Rightarrow> string \<Rightarrow> (bool \<times> parallel_state) option" where
  "download_single_transcript ps meeting response now =
     (case p_is_downloaded ps (mi_id meeting) of
        None \<Rightarrow> None
      | Some (downloaded, ps1) \<Rightarrow>
          if downloaded then Some (True, ps1)
          else (case worker_call meeting response now of
                  CallMarkSuccess i path n \<Rightarrow>
                    (case p_mark_success ps1 i path n now of
                       None \<Rightarrow> None
                     | Some ps2 \<Rightarrow>
                         (case p_get_progress ps2 of
                            None \<Rightarrow> None
                          | Some (progress, ps3) \<Rightarrow> Some (True, ps3)))
                | CallMarkFailure i e \<Rightarrow>
                    (case p_mark_failure ps1 i e now of
                       None \<Rightarrow> None
                     | Some ps2 \<Rightarrow> Some (False, ps2))))"





text \<open>One of the two methods of the worker finds text.\<close>

definition has_content :: "page \<Rightarrow> bool" where
  "has_content pg =
     (content_parts pg \<noteq> [] \<or>
      (case body_text pg of Some b \<Rightarrow> length b > 200 | None \<Rightarrow> False))"

subsection \<open>Example runs\<close>

definition info1 :: meeting_info where
  "info1 = new_meeting ''m1'' ''Standup'' ''https://otter.ai/u/m1'' ''t0''"

definition ps_done :: parallel_state where
  "ps_done = new_parallel_state (Some (state s_succ))"

definition snippet_page :: page where
  "snippet_page =
     \<lparr>elements = (\<lambda>selector. if selector = ''[class*=\"transcript\"]''
                                then [replicate 51 (CHR ''a'')] else []),
      state_script = None, body_text = Some (replicate 51 (CHR ''a'')), screenshot = None\<rparr>"

definition body_page :: page where
  "body_page =
     \<lparr>elements = (\<lambda>selector. []), state_script = None,
      body_text = Some (replicate 201 (CHR ''a'')), screenshot = None\<rparr>"









section \<open>Properties of the ledger\<close>

subsection \<open>Reading the fields after each operation\<close>

lemma state_save [simp]: "state (save s now) = (state s)\<lparr>last_run := Some now\<rparr>"
  by (simp add: save_def Let_def)

lemma meetings_register:
  "meetings (state (register_meeting s i t u now)) =
     (if has_key (meetings (state s)) i then meetings (state s)
      else AList.update i (new_meeting i t u now) (meetings (state s)))"
  by (simp add: register_meeting_def)

lemma has_key_update [simp]: "has_key (AList.update k v al) k"
  by (simp add: has_key_def update_conv')

lemma succ_save [simp]: "successful_downloads (state (save s now)) = successful_downloads (state s)"
  by simp

lemma successful_register [simp]:
  "successful_downloads (state (register_meeting s i t u now)) = successful_downloads (state s)"
  by (simp add: register_meeting_def)

lemma failed_register [simp]:
  "failed_downloads (state (register_meeting s i t u now)) = failed_downloads (state s)"
  by (simp add: register_meeting_def)

lemma successful_record_attempt [simp]:
  "successful_downloads (state (record_attempt s i m b e now)) = successful_downloads (state s)"
  by (simp add: record_attempt_def Let_def)

lemma failed_record_attempt [simp]:
  "failed_downloads (state (record_attempt s i m b e now)) = failed_downloads (state s)"
  by (simp add: record_attempt_def Let_def)

lemma meetings_record_attempt [simp]:
  "meetings (state (record_attempt s i m b e now)) = meetings (state s)"
  by (simp add: record_attempt_def Let_def)

lemma successful_mark_success:
  "successful_downloads (state (mark_success s i p m n now)) =
     (if i \<in> set (successful_downloads (state s)) then successful_downloads (state s)
      else successful_downloads (state s) @ [i])"
  by (simp add: mark_success_def Let_def)

lemma failed_mark_success:
  "failed_downloads (state (mark_success s i p m n now)) = remove1 i (failed_downloads (state s))"
  by (simp add: mark_success_def Let_def remove1_idem)

lemma meetings_mark_success:
  "meetings (state (mark_success s i p m n now)) =
     (case map_of (meetings (state s)) i of
        Some e \<Rightarrow> AList.update i
           (e\<lparr>mi_status := Success, mi_download_path := Some p,
              mi_file_size := Some n, mi_method_used := Some m\<rparr>) (meetings (state s))
      | None \<Rightarrow> meetings (state s))"
  by (simp add: mark_success_def Let_def)

lemma successful_mark_failure [simp]:
  "successful_downloads (state (mark_failure s i now)) = successful_downloads (state s)"
  by (simp add: mark_failure_def Let_def)

lemma failed_mark_failure:
  "failed_downloads (state (mark_failure s i now)) =
     (if i \<in> set (failed_downloads (state s)) then failed_downloads (state s)
      else failed_downloads (state s) @ [i])"
  by (simp add: mark_failure_def Let_def)

lemma meetings_mark_failure:
  "meetings (state (mark_failure s i now)) =
     (case map_of (meetings (state s)) i of
        Some e \<Rightarrow> AList.update i (e\<lparr>mi_status := Failed\<rparr>) (meetings (state s))
      | None \<Rightarrow> meetings (state s))"
  by (simp add: mark_failure_def Let_def)

lemma status_of_mark_failure:
  "status_of (mark_failure s i now) j =
     (if j = i \<and> has_key (meetings (state s)) i then Some Failed else status_of s j)"
  by (auto simp: status_of_def meetings_mark_failure has_key_def update_conv' split: option.splits)

lemma status_of_mark_success:
  "status_of (mark_success s i p m n now) j =
     (if j = i \<and> has_key (meetings (state s)) i then Some Success else status_of s j)"
  by (auto simp: status_of_def meetings_mark_success has_key_def update_conv' split: option.splits)

lemma status_of_register:
  "status_of (register_meeting s i t u now) j =
     (if j = i \<and> \<not> has_key (meetings (state s)) i then Some Pending else status_of s j)"
  by (auto simp: status_of_def meetings_register has_key_def update_conv' new_meeting_def)

lemma status_of_record_attempt [simp]:
  "status_of (record_attempt s i m b e now) j = status_of s j"
  by (simp add: status_of_def)

lemma has_key_mark_success [simp]:
  "has_key (meetings (state (mark_success s i p m n now))) j = has_key (meetings (state s)) j"
  by (auto simp: meetings_mark_success has_key_def update_conv' split: option.splits)

subsection \<open>The example ledgers\<close>

lemma meetings_s0: "meetings (state s0) = []"
  by (simp add: s0_def new_download_state_def load_state_def empty_ledger_def)

lemma lists_s0:
  "successful_downloads (state s0) = []" "failed_downloads (state s0) = []"
  by (simp_all add: s0_def new_download_state_def load_state_def empty_ledger_def)

lemma lists_ok_s0: "lists_ok s0"
  by (simp add: lists_ok_def lists_s0)

lemma meetings_s_reg:
  "meetings (state s_reg) =
     [(''m1'', new_meeting ''m1'' ''Standup'' ''https://otter.ai/u/m1'' ''t0'')]"
  by (simp add: s_reg_def meetings_register has_key_def meetings_s0)

lemma has_key_s_reg: "has_key (meetings (state s_reg)) ''m1''"
  by (simp add: has_key_def meetings_s_reg)

lemma dict_ok_s_reg: "dict_ok s_reg"
  by (simp add: dict_ok_def meetings_s_reg new_meeting_def)

lemma status_s_succ: "status_of s_succ ''m1'' = Some Success"
  by (simp add: s_succ_def status_of_mark_success has_key_s_reg)

lemma has_key_s_succ: "has_key (meetings (state s_succ)) ''m1''"
  by (simp add: s_succ_def has_key_s_reg)

lemma is_downloaded_s_succ: "is_downloaded s_succ ''m1''"
  by (simp add: is_downloaded_def s_succ_def successful_mark_success)

lemma meetings_s_succ:
  "meetings (state s_succ) =
     [(''m1'', (new_meeting ''m1'' ''Standup'' ''https://otter.ai/u/m1'' ''t0'')
        \<lparr>mi_status := Success, mi_download_path := Some ''downloads/Standup_m1.txt'',
         mi_file_size := Some 2048, mi_method_used := Some ''text_extraction''\<rparr>)]"
  by (simp add: s_succ_def meetings_mark_success meetings_s_reg)

subsection \<open>Registration\<close>

lemma count_key_distinct:
  "distinct (map fst al) \<Longrightarrow> map_of al k = Some v \<Longrightarrow> length (filter (\<lambda>p. fst p = k) al) = 1"
proof (induction al)
  case Nil
  then show ?case by simp
next
  case (Cons p al)
  show ?case
  proof (cases "fst p = k")
    case True
    with Cons.prems have "k \<notin> fst ` set al" by auto
    then have "filter (\<lambda>p. fst p = k) al = []" by (auto simp: filter_empty_conv)
    with True show ?thesis by simp
  next
    case False
    with Cons show ?thesis by (cases p) auto
  qed
qed

text \<open>
  Claim C7. \<^verbatim>\<open>register_meeting\<close> is idempotent. For every ledger whose \<^verbatim>\<open>meetings\<close> is a
  dictionary, after two registrations of the same id (the second with any title, url and clock
  reading) the dictionary is what it was after the first, it holds exactly one entry for the
  id, and an entry that was there before the first call is still there unchanged: a status
  Success is not reset to Pending.
\<close>

theorem register_meeting_idempotent:
  assumes "distinct (map fst (meetings (state s)))"
  shows "meetings (state (register_meeting (register_meeting s i t u n1) i t' u' n2))
           = meetings (state (register_meeting s i t u n1))
       \<and> length (filter (\<lambda>p. fst p = i)
           (meetings (state (register_meeting (register_meeting s i t u n1) i t' u' n2)))) = 1
       \<and> (\<forall>e. map_of (meetings (state s)) i = Some e \<longrightarrow>
            map_of (meetings (state (register_meeting (register_meeting s i t u n1) i t' u' n2))) i
              = Some e)"
proof -
  let ?s1 = "register_meeting s i t u n1"
  let ?s2 = "register_meeting ?s1 i t' u' n2"
  have k1: "has_key (meetings (state ?s1)) i"
    by (simp add: meetings_register)
  have eq: "meetings (state ?s2) = meetings (state ?s1)"
    using k1 by (simp add: meetings_register)
  have d1: "distinct (map fst (meetings (state ?s1)))"
    using assms by (simp add: meetings_register distinct_update)
  from k1 obtain v where "map_of (meetings (state ?s1)) i = Some v"
    by (auto simp: has_key_def)
  with d1 have one: "length (filter (\<lambda>p. fst p = i) (meetings (state ?s1))) = 1"
    by (rule count_key_distinct)
  have keep: "\<forall>e. map_of (meetings (state s)) i = Some e \<longrightarrow> map_of (meetings (state ?s1)) i = Some e"
    by (simp add: meetings_register has_key_def)
  show ?thesis using eq one keep by simp
qed

theorem register_meeting_idempotent_witness:
  "distinct (map fst (meetings (state s_succ)))
   \<and> status_of s_succ ''m1'' = Some Success
   \<and> length (filter (\<lambda>p. fst p = ''m1'')
        (meetings (state (register_meeting
           (register_meeting s_succ ''m1'' ''Standup'' ''https://otter.ai/u/m1'' ''t2'')
           ''m1'' ''Standup again'' ''https://otter.ai/u/m1'' ''t3'')))) = 1
   \<and> status_of (register_meeting
           (register_meeting s_succ ''m1'' ''Standup'' ''https://otter.ai/u/m1'' ''t2'')
           ''m1'' ''Standup again'' ''https://otter.ai/u/m1'' ''t3'') ''m1'' = Some Success"
proof -
  have d: "distinct (map fst (meetings (state s_succ)))"
    by (simp add: meetings_s_succ)
  obtain e where e: "map_of (meetings (state s_succ)) ''m1'' = Some e" "mi_status e = Success"
    using status_s_succ by (auto simp: status_of_def)
  let ?s2 = "register_meeting
           (register_meeting s_succ ''m1'' ''Standup'' ''https://otter.ai/u/m1'' ''t2'')
           ''m1'' ''Standup again'' ''https://otter.ai/u/m1'' ''t3''"
  note r = register_meeting_idempotent [OF d, of "''m1''" "''Standup''" "''https://otter.ai/u/m1''"
        "''t2''" "''Standup again''" "''https://otter.ai/u/m1''" "''t3''"]
  from r have one: "length (filter (\<lambda>p. fst p = ''m1'') (meetings (state ?s2))) = 1"
    by blast
  from r e(1) have "map_of (meetings (state ?s2)) ''m1'' = Some e"
    by blast
  with e(2) have "status_of ?s2 ''m1'' = Some Success"
    by (simp add: status_of_def)
  with d one status_s_succ show ?thesis by blast
qed

subsection \<open>Failure after success\<close>

lemma p_status_after_mark_failure_update:
  "map_option mi_status (map_of (meetings (p_state (p_mark_failure_update ps i err))) i) =
     (if has_key (meetings (p_state ps)) i then Some Failed else None)"
  by (auto simp: p_mark_failure_update_def Let_def has_key_def update_conv' split: option.splits)

text \<open>
  Claim C1, as amended. \<^verbatim>\<open>mark_failure\<close> sets the status of a registered id to Failed
  whatever the status was, Success included; it has no test of the old status, in
  \<^verbatim>\<open>DownloadState\<close> and in \<^verbatim>\<open>ParallelState\<close> alike. What it never touches is the list of
  successful ids, and the entries of the other ids.
\<close>

theorem mark_failure_overwrites_status:
  "status_of (mark_failure s i now) i = (if has_key (meetings (state s)) i then Some Failed else None)
   \<and> successful_downloads (state (mark_failure s i now)) = successful_downloads (state s)
   \<and> (j \<noteq> i \<longrightarrow> status_of (mark_failure s i now) j = status_of s j)
   \<and> map_option mi_status (map_of (meetings (p_state (p_mark_failure_update ps i err))) i) =
       (if has_key (meetings (p_state ps)) i then Some Failed else None)"
proof -
  have "\<not> has_key (meetings (state s)) i \<Longrightarrow> status_of s i = None"
    by (simp add: status_of_def has_key_def)
  then show ?thesis
    by (simp add: status_of_mark_failure p_status_after_mark_failure_update)
qed

theorem mark_failure_overwrites_status_witness:
  "status_of s_succ ''m1'' = Some Success
   \<and> status_of (mark_failure s_succ ''m1'' ''t2'') ''m1'' = Some Failed
   \<and> is_downloaded (mark_failure s_succ ''m1'' ''t2'') ''m1''
   \<and> status_of (mark_failure s_succ ''m1'' ''t2'') ''m2'' = status_of s_succ ''m2''"
  using mark_failure_overwrites_status [of s_succ "''m1''" "''t2''" "''m2''"]
    has_key_s_succ status_s_succ is_downloaded_s_succ
  by (simp add: is_downloaded_def)

text \<open>
  Claim C1 as stated fails: on the ledger where \<^verbatim>\<open>m1\<close> was registered and marked successful,
  \<^verbatim>\<open>mark_failure\<close> leaves the status Failed, not Success.
\<close>

theorem mark_success_then_mark_failure_counterexample:
  "status_of s_succ ''m1'' = Some Success
   \<and> status_of (mark_failure s_succ ''m1'' ''t2'') ''m1'' = Some Failed"
  by (simp add: status_of_mark_failure has_key_s_succ status_s_succ)

subsection \<open>The successful and the failed list\<close>

lemma lists_ok_alt:
  "lists_ok s \<longleftrightarrow> distinct (failed_downloads (state s)) \<and>
     set (successful_downloads (state s)) \<inter> set (failed_downloads (state s)) = {}"
  by (auto simp: lists_ok_def list_all_iff)

lemma lists_ok_apply_op:
  assumes "lists_ok s"
    and "case x of MarkFailure i now \<Rightarrow> \<not> is_downloaded s i | _ \<Rightarrow> True"
  shows "lists_ok (apply_op s x)"
proof (cases x)
  case (Register i t u now)
  with assms show ?thesis by (simp add: lists_ok_alt)
next
  case (RecordAttempt i m b e now)
  with assms show ?thesis by (simp add: lists_ok_alt)
next
  case (MarkSuccess i p m n now)
  with assms show ?thesis
    by (auto simp: lists_ok_alt successful_mark_success failed_mark_success)
next
  case (MarkFailure i now)
  with assms show ?thesis
    by (auto simp: lists_ok_alt failed_mark_failure is_downloaded_def)
qed

lemma lists_ok_run_ops:
  "lists_ok s \<Longrightarrow> guarded s ops \<Longrightarrow> lists_ok (run_ops s ops)"
proof (induction ops arbitrary: s)
  case Nil
  then show ?case by simp
next
  case (Cons x xs)
  from Cons.prems have "lists_ok (apply_op s x)"
    by (intro lists_ok_apply_op) auto
  with Cons show ?case by simp
qed

lemma successful_apply_op_mono:
  "set (successful_downloads (state s)) \<subseteq> set (successful_downloads (state (apply_op s x)))"
  by (cases x) (auto simp: successful_mark_success)

lemma successful_run_ops_mono:
  "set (successful_downloads (state s)) \<subseteq> set (successful_downloads (state (run_ops s ops)))"
proof (induction ops arbitrary: s)
  case Nil
  then show ?case by simp
next
  case (Cons x xs)
  have "set (successful_downloads (state s)) \<subseteq> set (successful_downloads (state (apply_op s x)))"
    by (rule successful_apply_op_mono)
  also have "\<dots> \<subseteq> set (successful_downloads (state (run_ops (apply_op s x) xs)))"
    by (rule Cons.IH)
  finally show ?case by simp
qed

lemma guarded_ops_retry: "guarded s0 ops_retry"
  by (simp add: ops_retry_def is_downloaded_def lists_s0 failed_mark_failure)

lemma lists_after_ops_retry:
  "successful_downloads (state (run_ops s0 ops_retry)) = [''m1'']"
  "failed_downloads (state (run_ops s0 ops_retry)) = []"
  by (simp_all add: ops_retry_def lists_s0 failed_mark_failure successful_mark_success
      failed_mark_success)

lemma failed_before_success:
  "failed_downloads (state (run_ops s0 (take 3 ops_retry))) = [''m1'']"
  by (simp add: ops_retry_def lists_s0 failed_mark_failure)

text \<open>
  Claim C2, as amended. The successful and the failed list share no id in every ledger reached
  from the empty ledger (or from a loaded ledger whose lists share no id and whose failed list
  has no repetition) by a sequence of register, recordAttempt, markSuccess and markFailure in
  which every markFailure meets an id that is not in the successful list at that moment, which
  is how \<^verbatim>\<open>download_meeting\<close> calls it. No operation, guarded or not, takes an id out of the
  successful list; \<^verbatim>\<open>mark_success\<close> puts its id into the successful list and out of the failed
  list.
\<close>

theorem successful_failed_disjoint_guarded:
  "(lists_ok s \<and> guarded s ops \<longrightarrow>
      set (successful_downloads (state (run_ops s ops))) \<inter>
      set (failed_downloads (state (run_ops s ops))) = {})
   \<and> (is_downloaded s i \<longrightarrow> is_downloaded (run_ops s ops) i)
   \<and> (lists_ok s \<longrightarrow>
        i \<in> set (successful_downloads (state (mark_success s i p m n now))) \<and>
        i \<notin> set (failed_downloads (state (mark_success s i p m n now))))"
proof -
  have a: "lists_ok s \<and> guarded s ops \<longrightarrow>
      set (successful_downloads (state (run_ops s ops))) \<inter>
      set (failed_downloads (state (run_ops s ops))) = {}"
    using lists_ok_run_ops [of s ops] by (simp add: lists_ok_alt)
  have b: "is_downloaded s i \<longrightarrow> is_downloaded (run_ops s ops) i"
    using successful_run_ops_mono [of s ops] by (auto simp: is_downloaded_def)
  have c: "lists_ok s \<longrightarrow>
        i \<in> set (successful_downloads (state (mark_success s i p m n now))) \<and>
        i \<notin> set (failed_downloads (state (mark_success s i p m n now)))"
    by (auto simp: lists_ok_alt successful_mark_success failed_mark_success)
  from a b c show ?thesis by blast
qed

theorem successful_failed_disjoint_guarded_witness:
  "lists_ok s0 \<and> guarded s0 ops_retry
   \<and> failed_downloads (state (run_ops s0 (take 3 ops_retry))) = [''m1'']
   \<and> successful_downloads (state (run_ops s0 ops_retry)) = [''m1'']
   \<and> failed_downloads (state (run_ops s0 ops_retry)) = []
   \<and> set (successful_downloads (state (run_ops s0 ops_retry))) \<inter>
      set (failed_downloads (state (run_ops s0 ops_retry))) = {}
   \<and> is_downloaded s_succ ''m1''
   \<and> is_downloaded (run_ops s_succ [MarkFailure ''m1'' ''t2'']) ''m1''"
  using successful_failed_disjoint_guarded [of s0 ops_retry "''m1''"]
    successful_failed_disjoint_guarded [of s_succ "[MarkFailure ''m1'' ''t2'']" "''m1''"]
    lists_ok_s0 guarded_ops_retry lists_after_ops_retry failed_before_success is_downloaded_s_succ
  by simp

text \<open>
  Claim C2 as stated fails: from the empty ledger, markSuccess then markFailure on the same id
  leaves the id in both lists.
\<close>

theorem successful_failed_disjoint_counterexample:
  "successful_downloads (state (run_ops s0
      [MarkSuccess ''m1'' ''downloads/Standup_m1.txt'' ''text_extraction'' 2048 ''t1'',
       MarkFailure ''m1'' ''t2''])) = [''m1'']
   \<and> failed_downloads (state (run_ops s0
      [MarkSuccess ''m1'' ''downloads/Standup_m1.txt'' ''text_extraction'' 2048 ''t1'',
       MarkFailure ''m1'' ''t2''])) = [''m1'']"
  by (simp add: lists_s0 failed_mark_failure successful_mark_success failed_mark_success)

subsection \<open>Success is final in the successful list\<close>

lemma dict_ok_update:
  assumes "distinct (map fst al)" "list_all (\<lambda>(k, e). mi_id e = k) al" "mi_id v = k"
  shows "distinct (map fst (AList.update k v al)) \<and>
         list_all (\<lambda>(k, e). mi_id e = k) (AList.update k v al)"
proof -
  have "set (AList.update k v al) \<subseteq> insert (k, v) (set al)"
    by (induction al) auto
  with assms show ?thesis
    by (auto simp: distinct_update list_all_iff)
qed

lemma map_of_mi_id:
  "list_all (\<lambda>(k, e). mi_id e = k) al \<Longrightarrow> map_of al k = Some e \<Longrightarrow> mi_id e = k"
  by (auto simp: list_all_iff dest: map_of_SomeD)

lemma dict_ok_apply_op: "dict_ok s \<Longrightarrow> dict_ok (apply_op s x)"
proof (cases x)
  case (Register i t u now)
  assume "dict_ok s"
  then show ?thesis
    using Register dict_ok_update [of "meetings (state s)" "new_meeting i t u now" i]
    by (simp add: dict_ok_def meetings_register new_meeting_def)
next
  case (RecordAttempt i m b e now)
  assume "dict_ok s"
  then show ?thesis using RecordAttempt by (simp add: dict_ok_def)
next
  case (MarkSuccess i p m n now)
  assume ok: "dict_ok s"
  show ?thesis
  proof (cases "map_of (meetings (state s)) i")
    case None
    with ok MarkSuccess show ?thesis by (simp add: dict_ok_def meetings_mark_success)
  next
    case (Some e)
    with ok have "mi_id e = i" by (auto simp: dict_ok_def intro: map_of_mi_id)
    with ok Some MarkSuccess show ?thesis
      using dict_ok_update [of "meetings (state s)"
          "e\<lparr>mi_status := Success, mi_download_path := Some p,
              mi_file_size := Some n, mi_method_used := Some m\<rparr>" i]
      by (simp add: dict_ok_def meetings_mark_success)
  qed
next
  case (MarkFailure i now)
  assume ok: "dict_ok s"
  show ?thesis
  proof (cases "map_of (meetings (state s)) i")
    case None
    with ok MarkFailure show ?thesis by (simp add: dict_ok_def meetings_mark_failure)
  next
    case (Some e)
    with ok have "mi_id e = i" by (auto simp: dict_ok_def intro: map_of_mi_id)
    with ok Some MarkFailure show ?thesis
      using dict_ok_update [of "meetings (state s)" "e\<lparr>mi_status := Failed\<rparr>" i]
      by (simp add: dict_ok_def meetings_mark_failure)
  qed
qed

lemma dict_ok_run_ops: "dict_ok s \<Longrightarrow> dict_ok (run_ops s ops)"
  by (induction ops arbitrary: s) (auto intro: dict_ok_apply_op)

lemma status_Success_apply_op:
  "status_of s i = Some Success \<Longrightarrow> \<not> is_mark_failure_of i x \<Longrightarrow>
     status_of (apply_op s x) i = Some Success"
proof (cases x)
  case (Register j t u now)
  assume st: "status_of s i = Some Success"
  then have "has_key (meetings (state s)) i"
    by (auto simp: status_of_def has_key_def)
  with st show ?thesis using Register
    by (auto simp: status_of_register)
next
  case (RecordAttempt j m b e now)
  assume "status_of s i = Some Success"
  then show ?thesis using RecordAttempt by simp
next
  case (MarkSuccess j p m n now)
  assume "status_of s i = Some Success"
  then show ?thesis using MarkSuccess by (simp add: status_of_mark_success)
next
  case (MarkFailure j now)
  assume "status_of s i = Some Success" "\<not> is_mark_failure_of i x"
  then show ?thesis using MarkFailure by (simp add: status_of_mark_failure)
qed

lemma status_Success_run_ops:
  "status_of s i = Some Success \<Longrightarrow> no_mark_failure_of i ops \<Longrightarrow>
     status_of (run_ops s ops) i = Some Success"
  by (induction ops arbitrary: s) (auto simp: no_mark_failure_of_def status_Success_apply_op)

lemma pending_not_Success:
  assumes "dict_ok s" "status_of s i = Some Success"
  shows "i \<notin> set (map mi_id (get_pending_meetings s))"
proof
  assume "i \<in> set (map mi_id (get_pending_meetings s))"
  then obtain k e where ke: "(k, e) \<in> set (meetings (state s))" "mi_id e = i"
      "mi_status e = Pending \<or> mi_status e = Failed"
    by (auto simp: get_pending_meetings_def)
  with assms(1) have "k = i" by (auto simp: dict_ok_def list_all_iff)
  with ke assms(1) have "map_of (meetings (state s)) i = Some e"
    by (auto simp: dict_ok_def)
  with assms(2) ke show False by (auto simp: status_of_def)
qed

lemma no_mark_failure_ops_later: "no_mark_failure_of ''m1'' ops_later"
  by (simp add: no_mark_failure_of_def ops_later_def)

text \<open>
  Claim C4, as amended. After \<^verbatim>\<open>mark_success(id)\<close>, \<^verbatim>\<open>is_downloaded(id)\<close> is true in every
  ledger reached by any further sequence of register, recordAttempt, markSuccess and
  markFailure. If moreover the id was registered when it was marked successful and no later
  operation is markFailure on that id, its status stays Success and no entry of
  \<^verbatim>\<open>get_pending_meetings()\<close> carries the id.
\<close>

theorem mark_success_permanent:
  "is_downloaded (run_ops (mark_success s i p m n now) ops) i
   \<and> (dict_ok s \<and> has_key (meetings (state s)) i \<and> no_mark_failure_of i ops \<longrightarrow>
        status_of (run_ops (mark_success s i p m n now) ops) i = Some Success \<and>
        i \<notin> set (map mi_id (get_pending_meetings (run_ops (mark_success s i p m n now) ops))))"
proof -
  let ?s1 = "mark_success s i p m n now"
  have "is_downloaded ?s1 i"
    by (simp add: is_downloaded_def successful_mark_success)
  then have a: "is_downloaded (run_ops ?s1 ops) i"
    using successful_run_ops_mono [of ?s1 ops] by (auto simp: is_downloaded_def)
  have b: "status_of (run_ops ?s1 ops) i = Some Success \<and>
        i \<notin> set (map mi_id (get_pending_meetings (run_ops ?s1 ops)))"
    if h: "dict_ok s" "has_key (meetings (state s)) i" "no_mark_failure_of i ops"
  proof -
    have "status_of ?s1 i = Some Success"
      using h(2) by (simp add: status_of_mark_success)
    then have st: "status_of (run_ops ?s1 ops) i = Some Success"
      using h(3) by (rule status_Success_run_ops)
    have "dict_ok ?s1"
      using dict_ok_apply_op [OF h(1), of "MarkSuccess i p m n now"] by simp
    then have "dict_ok (run_ops ?s1 ops)" by (rule dict_ok_run_ops)
    then show ?thesis using st pending_not_Success by blast
  qed
  from a b show ?thesis by blast
qed

theorem mark_success_permanent_witness:
  "dict_ok s_reg \<and> has_key (meetings (state s_reg)) ''m1'' \<and> no_mark_failure_of ''m1'' ops_later
   \<and> is_downloaded (run_ops s_succ ops_later) ''m1''
   \<and> status_of (run_ops s_succ ops_later) ''m1'' = Some Success
   \<and> ''m1'' \<notin> set (map mi_id (get_pending_meetings (run_ops s_succ ops_later)))"
  using mark_success_permanent [of s_reg "''m1''" "''downloads/Standup_m1.txt''"
      "''text_extraction''" 2048 "''t1''" ops_later]
    dict_ok_s_reg has_key_s_reg no_mark_failure_ops_later
  by (simp add: s_succ_def)

text \<open>
  Claim C4 as stated fails: after markSuccess on the registered id \<^verbatim>\<open>m1\<close>, one markFailure on
  it puts its entry back into the result of \<^verbatim>\<open>get_pending_meetings()\<close>, with status Failed.
\<close>

theorem pending_after_mark_failure_counterexample:
  "is_downloaded s_succ ''m1''
   \<and> map mi_id (get_pending_meetings (run_ops s_succ [MarkFailure ''m1'' ''t2''])) = [''m1'']
   \<and> map mi_status (get_pending_meetings (run_ops s_succ [MarkFailure ''m1'' ''t2''])) = [Failed]"
proof -
  have "map mi_id (get_pending_meetings (run_ops s_succ [MarkFailure ''m1'' ''t2''])) = [''m1'']"
       "map mi_status (get_pending_meetings (run_ops s_succ [MarkFailure ''m1'' ''t2''])) = [Failed]"
    by (simp_all add: get_pending_meetings_def meetings_mark_failure meetings_s_succ new_meeting_def)
  with is_downloaded_s_succ show ?thesis by simp
qed

section \<open>Properties of \<^verbatim>\<open>ParallelState\<close>\<close>

lemma acquire_held: "p_lock ps \<Longrightarrow> acquire ps = None"
  by (simp add: acquire_def)

lemma acquire_free: "\<not> p_lock ps \<Longrightarrow> acquire ps = Some (ps\<lparr>p_lock := True\<rparr>)"
  by (simp add: acquire_def)

lemma p_save_held: "p_lock ps \<Longrightarrow> p_save ps now = None"
  by (simp add: p_save_def acquire_held)

lemma p_lock_mark_success_update [simp]:
  "p_lock (p_mark_success_update ps i path n) = p_lock ps"
  by (simp add: p_mark_success_update_def Let_def)

lemma p_lock_mark_failure_update [simp]:
  "p_lock (p_mark_failure_update ps i err) = p_lock ps"
  by (simp add: p_mark_failure_update_def Let_def)

lemma p_mark_success_blocks: "p_mark_success ps i path n now = None"
  by (cases "p_lock ps") (simp_all add: p_mark_success_def acquire_def p_save_held)

lemma p_mark_failure_blocks: "p_mark_failure ps i err now = None"
  by (cases "p_lock ps") (simp_all add: p_mark_failure_def acquire_def p_save_held)

lemma p_lock_new [simp]: "\<not> p_lock (new_parallel_state f)"
  by (simp add: new_parallel_state_def)

text \<open>
  Claim C3 fails on the code. On a newly built \<^verbatim>\<open>ParallelState\<close> (lock free, any content of
  the state file) a call of \<^verbatim>\<open>mark_success\<close> or of \<^verbatim>\<open>mark_failure\<close> never returns: the method
  holds \<^verbatim>\<open>self.lock\<close> when it calls \<^verbatim>\<open>self.save()\<close>, which waits for the same lock. The state
  file is not written. On the same object \<^verbatim>\<open>save()\<close> and \<^verbatim>\<open>is_downloaded()\<close>, called with
  the lock free, do return.
\<close>

theorem parallel_mark_never_returns:
  "p_mark_success (new_parallel_state f) i path n now = None
   \<and> p_mark_failure (new_parallel_state f) i err now = None
   \<and> p_save (new_parallel_state f) now \<noteq> None
   \<and> p_is_downloaded (new_parallel_state f) i \<noteq> None"
  by (simp add: p_mark_success_blocks p_mark_failure_blocks p_save_def p_is_downloaded_def
      acquire_def Let_def)

section \<open>Properties of the scrolling loop\<close>
















section \<open>Properties of the sanitizers\<close>

lemma set_sub_runs: "set (sub_runs P r s) \<subseteq> {c \<in> set s. \<not> P c} \<union> {r}"
proof (induction P r s rule: sub_runs.induct)
  case (1 P r)
  then show ?case by simp
next
  case (2 P r c cs)
  have "set (dropWhile P cs) \<subseteq> set cs" by (rule set_dropWhileD [THEN subsetI]) 
  with 2 show ?case by (auto split: if_splits)
qed

lemma sub_runs_id: "\<forall>c\<in>set s. \<not> P c \<Longrightarrow> sub_runs P r s = s"
  by (induction s) auto

lemma hd_sub_runs:
  "s \<noteq> [] \<Longrightarrow> sub_runs P r s \<noteq> [] \<and> hd (sub_runs P r s) = (if P (hd s) then r else hd s)"
  by (cases s) auto

lemma no_adjacent_Cons:
  "no_adjacent P (c # s) = ((s \<noteq> [] \<longrightarrow> \<not> (P c \<and> P (hd s))) \<and> no_adjacent P s)"
  by (cases s) auto

lemma no_adjacent_sub_runs: "P r \<Longrightarrow> no_adjacent P (sub_runs P r s)"
proof (induction P r s rule: sub_runs.induct)
  case (1 P r)
  then show ?case by simp
next
  case (2 P r c cs)
  show ?case
  proof (cases "P c")
    case True
    let ?d = "dropWhile P cs"
    have eq: "sub_runs P r (c # cs) = r # sub_runs P r ?d"
      using True by (simp only: sub_runs.simps if_True)
    have ih: "no_adjacent P (sub_runs P r ?d)" using 2 True by simp
    show ?thesis
    proof (cases "?d = []")
      case True
      then have "sub_runs P r ?d = []" by (metis sub_runs.simps(1))
      then show ?thesis unfolding eq by (simp only: no_adjacent.simps)
    next
      case False
      then have "\<not> P (hd ?d)" by (rule hd_dropWhile)
      with hd_sub_runs [OF False, of P r] have "\<not> P (hd (sub_runs P r ?d))"
        by metis
      with ih show ?thesis unfolding eq by (simp only: no_adjacent_Cons) blast
    qed
  next
    case False
    with 2 show ?thesis by (auto simp: no_adjacent_Cons)
  qed
qed

lemma sub_runs_no_adjacent_id:
  "no_adjacent is_underscore s \<Longrightarrow> sub_runs is_underscore (CHR ''_'') s = s"
proof (induction s rule: induct_list012)
  case 1
  then show ?case by simp
next
  case (2 c)
  then show ?case by (simp add: is_underscore_def)
next
  case (3 c d cs)
  from "3.prems" have na: "no_adjacent is_underscore (d # cs)"
    and nb: "\<not> (is_underscore c \<and> is_underscore d)" by simp_all
  have ih: "sub_runs is_underscore (CHR ''_'') (d # cs) = d # cs"
    using "3.IH"(2) na by simp
  show ?case
  proof (cases "is_underscore c")
    case True
    with nb have "dropWhile is_underscore (d # cs) = d # cs" by simp
    then have "sub_runs is_underscore (CHR ''_'') (c # d # cs) =
                 CHR ''_'' # sub_runs is_underscore (CHR ''_'') (d # cs)"
      using True by (simp only: sub_runs.simps if_True)
    moreover from True have "c = CHR ''_''" by (simp only: is_underscore_def)
    ultimately show ?thesis using ih by (simp only:)
  next
    case False
    then have "sub_runs is_underscore (CHR ''_'') (c # d # cs) =
                 c # sub_runs is_underscore (CHR ''_'') (d # cs)"
      by (simp only: sub_runs.simps if_False)
    with ih show ?thesis by simp
  qed
qed

lemma no_adjacent_append: "no_adjacent P (a @ b) \<Longrightarrow> no_adjacent P a \<and> no_adjacent P b"
proof (induction P a rule: no_adjacent.induct)
  case (1 P)
  then show ?case by simp
next
  case (2 P c)
  then show ?case by (cases b) auto
next
  case (3 P c d cs)
  then show ?case by auto
qed

lemma no_adjacent_take: "no_adjacent P s \<Longrightarrow> no_adjacent P (take n s)"
  using no_adjacent_append [of P "take n s" "drop n s"] by simp

lemma strip_chars_decomp:
  "\<exists>a b. s = a @ strip_chars P s @ b"
proof -
  let ?d = "dropWhile P s"
  have 1: "s = takeWhile P s @ ?d" by simp
  have "rev (dropWhile P (rev ?d)) @ rev (takeWhile P (rev ?d))
          = rev (takeWhile P (rev ?d) @ dropWhile P (rev ?d))"
    by (simp only: rev_append)
  also have "\<dots> = rev (rev ?d)" by (simp only: takeWhile_dropWhile_id)
  also have "\<dots> = ?d" by (simp only: rev_rev_ident)
  finally have 2: "?d = strip_chars P s @ rev (takeWhile P (rev ?d))"
    by (simp only: strip_chars_def)
  from 1 2 have "s = takeWhile P s @ strip_chars P s @ rev (takeWhile P (rev ?d))" by simp
  then show ?thesis by blast
qed

lemma no_adjacent_strip: "no_adjacent Q' s \<Longrightarrow> no_adjacent Q' (strip_chars P s)"
proof -
  assume "no_adjacent Q' s"
  moreover obtain a b where "s = a @ strip_chars P s @ b" using strip_chars_decomp by blast
  ultimately show ?thesis using no_adjacent_append [of Q' a "strip_chars P s @ b"]
      no_adjacent_append [of Q' "strip_chars P s" b] by metis
qed

lemma set_strip_chars: "set (strip_chars P s) \<subseteq> set s"
proof -
  obtain a b where "s = a @ strip_chars P s @ b" using strip_chars_decomp by blast
  then have "set s = set a \<union> set (strip_chars P s) \<union> set b" by (metis set_append sup_assoc)
  then show ?thesis by blast
qed

lemma length_strip_chars: "length (strip_chars P s) \<le> length s"
proof -
  obtain a b where "s = a @ strip_chars P s @ b" using strip_chars_decomp by blast
  then have "length s = length a + length (strip_chars P s) + length b"
    by (metis length_append add.assoc)
  then show ?thesis by simp
qed

lemma stripped_strip_chars: "stripped P (strip_chars P s)"
proof -
  let ?d = "dropWhile P s"
  let ?e = "dropWhile P (rev ?d)"
  show ?thesis
  proof (cases "?e = []")
    case True
    then show ?thesis by (simp add: stripped_def strip_chars_def)
  next
    case False
    have dne: "?d \<noteq> []"
    proof
      assume "?d = []"
      then have "?e = []" by (simp only: rev.simps dropWhile.simps)
      with False show False ..
    qed
    have l: "last (rev ?e) = hd ?e" using False by (simp add: last_rev)
    have h1: "\<not> P (hd ?e)" using False by (rule hd_dropWhile)
    obtain t where t: "rev ?d = t @ ?e" by (metis takeWhile_dropWhile_id)
    then have "last (rev ?d) = last ?e" using False by (metis last_appendR)
    then have "hd (rev ?e) = hd ?d" using False dne by (simp add: hd_rev last_rev)
    moreover have "\<not> P (hd ?d)" using dne by (rule hd_dropWhile)
    ultimately show ?thesis using l h1 by (simp add: stripped_def strip_chars_def)
  qed
qed

lemma strip_chars_id: "stripped P s \<Longrightarrow> strip_chars P s = s"
proof (cases "s = []")
  case True
  then show ?thesis by (simp add: strip_chars_def)
next
  case False
  assume "stripped P s"
  with False have h: "\<not> P (hd s)" "\<not> P (last s)" by (auto simp: stripped_def)
  from h(1) False have 1: "dropWhile P s = s" by (cases s) auto
  from h(2) False have "\<not> P (hd (rev s))" by (simp add: hd_rev)
  with False have 2: "dropWhile P (rev s) = rev s" by (cases "rev s") auto
  from 1 2 show ?thesis by (simp add: strip_chars_def)
qed

lemma underscore_not_illegal: "CHR ''_'' \<notin> set illegal_chars" "CHR ''_'' \<notin> set p_illegal_chars"
  by (simp_all add: illegal_chars_def p_illegal_chars_def)

lemma underscore_not_space: "\<not> is_space (CHR ''_'')"
  by (simp add: is_space_def)

lemma is_underscore_underscore: "is_underscore (CHR ''_'')"
  by (simp add: is_underscore_def)

lemma set_sub_runs_subset: "set (sub_runs P r s) \<subseteq> insert r (set s)"
  using set_sub_runs [of P r s] by auto

lemma sanitize_filename_chars:
  assumes "c \<in> set (sanitize_filename x)"
  shows "c \<notin> set illegal_chars \<and> \<not> is_space c"
proof -
  let ?n1 = "filter (\<lambda>c. c \<notin> set illegal_chars) x"
  let ?n2 = "sub_runs is_space (CHR ''_'') ?n1"
  let ?n3 = "sub_runs is_underscore (CHR ''_'') ?n2"
  have "c \<in> set (take 80 ?n3)"
    using assms set_strip_chars [of is_underscore "take 80 ?n3"]
    by (auto simp: sanitize_filename_def Let_def)
  then have "c \<in> set ?n3" by (rule in_set_takeD)
  then have "c = CHR ''_'' \<or> c \<in> set ?n2" using set_sub_runs_subset by fastforce
  moreover have "c \<in> set ?n2 \<Longrightarrow> c = CHR ''_'' \<or> (c \<in> set ?n1 \<and> \<not> is_space c)"
    using set_sub_runs [of is_space "CHR ''_''" ?n1] by auto
  ultimately show ?thesis
    using underscore_not_illegal underscore_not_space by auto
qed

lemma sanitize_filename_shape:
  "no_adjacent is_underscore (sanitize_filename x) \<and> length (sanitize_filename x) \<le> 80
   \<and> stripped is_underscore (sanitize_filename x)"
proof -
  let ?n3 = "sub_runs is_underscore (CHR ''_'')
               (sub_runs is_space (CHR ''_'') (filter (\<lambda>c. c \<notin> set illegal_chars) x))"
  have eq: "sanitize_filename x = strip_chars is_underscore (take 80 ?n3)"
    by (simp add: sanitize_filename_def Let_def)
  have "no_adjacent is_underscore ?n3"
    by (rule no_adjacent_sub_runs) (rule is_underscore_underscore)
  then have "no_adjacent is_underscore (take 80 ?n3)" by (rule no_adjacent_take)
  then have a: "no_adjacent is_underscore (sanitize_filename x)"
    unfolding eq by (rule no_adjacent_strip)
  have "length (sanitize_filename x) \<le> length (take 80 ?n3)"
    unfolding eq by (rule length_strip_chars)
  then have b: "length (sanitize_filename x) \<le> 80" by simp
  have c: "stripped is_underscore (sanitize_filename x)"
    unfolding eq by (rule stripped_strip_chars)
  from a b c show ?thesis by simp
qed

lemma sanitize_filename_fixed:
  assumes "clean_name illegal_chars 80 s" "\<forall>c\<in>set s. \<not> is_space c"
  shows "sanitize_filename s = s"
proof -
  have 1: "filter (\<lambda>c. c \<notin> set illegal_chars) s = s"
    using assms(1) by (simp add: clean_name_def)
  have 2: "sub_runs is_space (CHR ''_'') s = s"
    using assms(2) by (rule sub_runs_id)
  have 3: "sub_runs is_underscore (CHR ''_'') s = s"
    using assms(1) by (simp add: clean_name_def sub_runs_no_adjacent_id)
  have 4: "take 80 s = s" using assms(1) by (simp add: clean_name_def)
  have 5: "strip_chars is_underscore s = s"
    using assms(1) by (simp add: clean_name_def strip_chars_id)
  show ?thesis by (simp add: sanitize_filename_def Let_def 1 2 3 4 5)
qed

lemma sanitize_filename_clean:
  "clean_name illegal_chars 80 (sanitize_filename x)"
  using sanitize_filename_chars [of _ x] sanitize_filename_shape [of x]
  by (auto simp: clean_name_def)

lemma length_py_slice_to: "0 \<le> n \<Longrightarrow> length (py_slice_to n s) \<le> nat n"
  by (simp add: py_slice_to_def)

lemma py_slice_to_take: "\<exists>k. py_slice_to n s = take k s"
  by (auto simp: py_slice_to_def)

lemma p_sanitize_filename_clean:
  "0 \<le> n \<Longrightarrow> clean_name p_illegal_chars (nat n) (p_sanitize_filename x n)"
proof -
  assume n: "0 \<le> n"
  let ?s1 = "map (\<lambda>c. if c \<in> set p_illegal_chars then CHR ''_'' else c) x"
  let ?s2 = "sub_runs is_underscore (CHR ''_'') ?s1"
  obtain k where k: "py_slice_to n ?s2 = take k ?s2" using py_slice_to_take by blast
  have eq: "p_sanitize_filename x n = strip_chars is_underscore (py_slice_to n ?s2)"
    by (simp add: p_sanitize_filename_def Let_def)
  have "set (p_sanitize_filename x n) \<subseteq> set (take k ?s2)"
    unfolding eq k by (rule set_strip_chars)
  also have "\<dots> \<subseteq> set ?s2" by (rule set_take_subset)
  also have "\<dots> \<subseteq> insert (CHR ''_'') (set ?s1)" by (rule set_sub_runs_subset)
  finally have a: "\<forall>c\<in>set (p_sanitize_filename x n). c \<notin> set p_illegal_chars"
    using underscore_not_illegal(2) by auto
  have "no_adjacent is_underscore ?s2"
    by (rule no_adjacent_sub_runs) (rule is_underscore_underscore)
  then have "no_adjacent is_underscore (take k ?s2)" by (rule no_adjacent_take)
  then have b: "no_adjacent is_underscore (p_sanitize_filename x n)"
    unfolding eq k by (rule no_adjacent_strip)
  have "length (p_sanitize_filename x n) \<le> length (py_slice_to n ?s2)"
    unfolding eq by (rule length_strip_chars)
  with length_py_slice_to [OF n, of ?s2] have c: "length (p_sanitize_filename x n) \<le> nat n"
    by simp
  have d: "stripped is_underscore (p_sanitize_filename x n)"
    unfolding eq by (rule stripped_strip_chars)
  from a b c d show ?thesis by (simp add: clean_name_def)
qed

lemma p_sanitize_filename_fixed:
  assumes "0 \<le> n" "clean_name p_illegal_chars (nat n) s"
  shows "p_sanitize_filename s n = s"
proof -
  have 1: "map (\<lambda>c. if c \<in> set p_illegal_chars then CHR ''_'' else c) s = s"
    using assms(2) by (simp add: clean_name_def map_idI)
  have 3: "sub_runs is_underscore (CHR ''_'') s = s"
    using assms(2) by (simp add: clean_name_def sub_runs_no_adjacent_id)
  have 4: "py_slice_to n s = s" using assms by (simp add: clean_name_def py_slice_to_def)
  have 5: "strip_chars is_underscore s = s"
    using assms(2) by (simp add: clean_name_def strip_chars_id)
  show ?thesis by (simp add: p_sanitize_filename_def Let_def 1 3 4 5)
qed

lemma sanitize_title1: "sanitize_filename title1 = ''Weekly_sync_notes_2024''"
  by code_simp

lemma clean_daily: "clean_name p_illegal_chars 100 ''Daily sync''"
  by code_simp

text \<open>
  Claim C6, as amended. Both sanitizers are total functions of their input. For every string
  the result of the sanitizer of \<^verbatim>\<open>otter_downloader.py\<close> has none of the reserved characters
  and no whitespace character, no two underscores in a row, at most 80 characters and no
  underscore at either end, and sanitizing it again gives it back. For every string and every
  bound \<open>n \<ge> 0\<close> the result of the sanitizer of \<^verbatim>\<open>otter_parallel.py\<close> has none of its reserved
  characters, no two underscores in a row, at most \<open>n\<close> characters and no underscore at either
  end, and sanitizing it again gives it back; this sanitizer returns unchanged every title that
  already has this shape, whitespace included.
\<close>

theorem sanitize_filename_clean_idempotent:
  "clean_name illegal_chars 80 (sanitize_filename x)
   \<and> (\<forall>c\<in>set (sanitize_filename x). \<not> is_space c)
   \<and> sanitize_filename (sanitize_filename x) = sanitize_filename x
   \<and> (0 \<le> n \<longrightarrow>
        clean_name p_illegal_chars (nat n) (p_sanitize_filename x n)
        \<and> p_sanitize_filename (p_sanitize_filename x n) n = p_sanitize_filename x n
        \<and> (clean_name p_illegal_chars (nat n) x \<longrightarrow> p_sanitize_filename x n = x))"
proof -
  have a: "clean_name illegal_chars 80 (sanitize_filename x)"
    by (rule sanitize_filename_clean)
  have b: "\<forall>c\<in>set (sanitize_filename x). \<not> is_space c"
    using sanitize_filename_chars [of _ x] by blast
  have c: "sanitize_filename (sanitize_filename x) = sanitize_filename x"
    using a b by (rule sanitize_filename_fixed)
  have d: "clean_name p_illegal_chars (nat n) (p_sanitize_filename x n)" if "0 \<le> n"
    using that by (rule p_sanitize_filename_clean)
  have e: "p_sanitize_filename (p_sanitize_filename x n) n = p_sanitize_filename x n" if "0 \<le> n"
    using that d [OF that] by (rule p_sanitize_filename_fixed)
  have f: "p_sanitize_filename x n = x" if "0 \<le> n" "clean_name p_illegal_chars (nat n) x"
    using that by (rule p_sanitize_filename_fixed)
  from a b c d e f show ?thesis by blast
qed

theorem sanitize_filename_clean_idempotent_witness:
  "(0::int) \<le> 100
   \<and> sanitize_filename title1 = ''Weekly_sync_notes_2024''
   \<and> sanitize_filename ''Weekly_sync_notes_2024'' = ''Weekly_sync_notes_2024''
   \<and> clean_name illegal_chars 80 ''Weekly_sync_notes_2024''
   \<and> clean_name p_illegal_chars 100 ''Daily sync''
   \<and> p_sanitize_filename ''Daily sync'' 100 = ''Daily sync''"
  using sanitize_filename_clean_idempotent [of title1 100]
    sanitize_filename_clean_idempotent [of "''Daily sync''" 100] sanitize_title1 clean_daily
  by simp

text \<open>
  Claim C6 as stated fails for the sanitizer of \<^verbatim>\<open>otter_parallel.py\<close>: a run of two spaces in
  the title is still in the result.
\<close>

theorem p_sanitize_filename_whitespace_counterexample:
  "is_space (CHR '' '') \<and> p_sanitize_filename ''a  b'' 100 = ''a  b''"
  by code_simp

section \<open>Properties of the text extraction strategy\<close>


















section \<open>Properties of the parallel worker\<close>

lemma length_p_header: "name \<noteq> [] \<Longrightarrow> 100 < length (p_header meeting name now)"
  by (cases name) (simp_all add: p_header_def)

lemma extract_transcript_text_empty_iff:
  "extract_transcript_text pg meeting now = [] \<longleftrightarrow> \<not> has_content pg"
  by (auto simp: extract_transcript_text_def has_content_def p_header_def Let_def
      split: option.splits)

lemma length_extract_transcript_text:
  "has_content pg \<Longrightarrow> 100 < length (extract_transcript_text pg meeting now)"
  using length_p_header [of "''parallel_text_extraction''" meeting now]
    length_p_header [of "''parallel_body_extraction''" meeting now]
  by (auto simp: extract_transcript_text_def has_content_def Let_def split: option.splits)

lemma worker_call_Loaded:
  "worker_call meeting (Loaded pg) now =
     (if has_content pg
      then CallMarkSuccess (mi_id meeting) (p_save_path meeting)
             (utf8_size (extract_transcript_text pg meeting now))
      else CallMarkFailure (mi_id meeting) ''No transcript content found'')"
  using extract_transcript_text_empty_iff [of pg meeting now]
    length_extract_transcript_text [of pg meeting now]
  by (auto simp: worker_call_def Let_def)

lemma content_parts_update [simp]:
  "content_parts (pg\<lparr>state_script := x, screenshot := y\<rparr>) = content_parts pg"
  by (simp add: content_parts_def query_selector_all_def)

lemma extract_transcript_text_update [simp]:
  "extract_transcript_text (pg\<lparr>state_script := x, screenshot := y\<rparr>) meeting now
     = extract_transcript_text pg meeting now"
  by (simp add: extract_transcript_text_def Let_def)

lemma worker_skips_downloaded:
  assumes "\<not> p_lock ps" "mi_id meeting \<in> set (successful_downloads (p_state ps))"
  shows "download_single_transcript ps meeting response now = Some (True, ps)"
  using assms
  by (simp add: download_single_transcript_def p_is_downloaded_def acquire_def release_def)

lemma ps_done_facts:
  "\<not> p_lock ps_done" "mi_id info1 \<in> set (successful_downloads (p_state ps_done))"
  by code_simp+

lemma worker_examples:
  "content_parts snippet_page \<noteq> []"
  "content_parts body_page = []"
  "body_text body_page = Some (replicate 201 (CHR ''a''))"
  "has_content snippet_page" "has_content body_page" "\<not> has_content page101"
  by code_simp+

lemma worker_sizes:
  "utf8_size (extract_transcript_text snippet_page info1 ''t2'') = 205"
  "utf8_size (extract_transcript_text body_page info1 ''t2'') = 355"
  "p_save_path info1 = ''downloads/Standup_m1.txt''" "mi_id info1 = ''m1''"
  by code_simp+

text \<open>
  Claim C5, as amended. A worker task returns at once, without touching the ledger, when the
  meeting is already marked downloaded. Otherwise it navigates once and makes one call of the
  ledger: \<^verbatim>\<open>mark_failure\<close> with the message of the exception when the navigation raises;
  \<^verbatim>\<open>mark_success\<close> with the path and the size of the file when one of its two methods finds
  text; \<^verbatim>\<open>mark_failure\<close> with "No transcript content found" when neither does. The first method
  is the inner text, longer than 50 characters, of the elements under the content selectors;
  the second is the visible text of the whole body when longer than 200 characters. Neither
  reads the client-side state, and no screenshot is taken: the page's state script and
  screenshot do not change the call. Whether the call of the ledger returns is the matter of
  claim C3.
\<close>

theorem worker_task_plan:
  "(\<not> p_lock ps \<and> mi_id meeting \<in> set (successful_downloads (p_state ps)) \<longrightarrow>
      download_single_transcript ps meeting response now = Some (True, ps))
   \<and> worker_call meeting (Loaded pg) now =
       (if has_content pg
        then CallMarkSuccess (mi_id meeting) (p_save_path meeting)
               (utf8_size (extract_transcript_text pg meeting now))
        else CallMarkFailure (mi_id meeting) ''No transcript content found'')
   \<and> (content_parts pg \<noteq> [] \<longrightarrow>
        extract_transcript_text pg meeting now =
          p_header meeting ''parallel_text_extraction'' now @ join_with [nl] (content_parts pg))
   \<and> (content_parts pg = [] \<and> body_text pg = Some b \<and> 200 < length b \<longrightarrow>
        extract_transcript_text pg meeting now =
          p_header meeting ''parallel_body_extraction'' now @ b)
   \<and> worker_call meeting (Timeout e) now = CallMarkFailure (mi_id meeting) e
   \<and> worker_call meeting (Raised e) now = CallMarkFailure (mi_id meeting) e
   \<and> worker_call meeting (Loaded (pg\<lparr>state_script := x, screenshot := y\<rparr>)) now
       = worker_call meeting (Loaded pg) now"
proof -
  have a: "\<not> p_lock ps \<and> mi_id meeting \<in> set (successful_downloads (p_state ps)) \<longrightarrow>
      download_single_transcript ps meeting response now = Some (True, ps)"
    using worker_skips_downloaded by blast
  have c: "content_parts pg \<noteq> [] \<longrightarrow>
        extract_transcript_text pg meeting now =
          p_header meeting ''parallel_text_extraction'' now @ join_with [nl] (content_parts pg)"
    by (simp add: extract_transcript_text_def Let_def)
  have d: "content_parts pg = [] \<and> body_text pg = Some b \<and> 200 < length b \<longrightarrow>
        extract_transcript_text pg meeting now =
          p_header meeting ''parallel_body_extraction'' now @ b"
    by (auto simp: extract_transcript_text_def Let_def)
  have e: "worker_call meeting (Timeout e) now = CallMarkFailure (mi_id meeting) e"
          "worker_call meeting (Raised e) now = CallMarkFailure (mi_id meeting) e"
    by (simp_all add: worker_call_def)
  have f: "worker_call meeting (Loaded (pg\<lparr>state_script := x, screenshot := y\<rparr>)) now
       = worker_call meeting (Loaded pg) now"
    by (simp add: worker_call_def)
  from a worker_call_Loaded [of meeting pg now] c d e f show ?thesis by blast
qed

theorem worker_task_plan_witness:
  "\<not> p_lock ps_done \<and> mi_id info1 \<in> set (successful_downloads (p_state ps_done))
   \<and> download_single_transcript ps_done info1 (Loaded page99) ''t2'' = Some (True, ps_done)
   \<and> content_parts snippet_page \<noteq> []
   \<and> worker_call info1 (Loaded snippet_page) ''t2''
       = CallMarkSuccess ''m1'' ''downloads/Standup_m1.txt'' 205
   \<and> content_parts body_page = [] \<and> body_text body_page = Some (replicate 201 (CHR ''a''))
   \<and> worker_call info1 (Loaded body_page) ''t2''
       = CallMarkSuccess ''m1'' ''downloads/Standup_m1.txt'' 355
   \<and> worker_call info1 (Loaded page101) ''t2''
       = CallMarkFailure ''m1'' ''No transcript content found''"
  using worker_task_plan [of ps_done info1 "Loaded page99" "''t2''" snippet_page]
    worker_task_plan [of ps_done info1 "Loaded page99" "''t2''" body_page]
    worker_task_plan [of ps_done info1 "Loaded page99" "''t2''" page101]
    ps_done_facts worker_examples worker_sizes
  by simp

text \<open>
  Claim C5 as stated fails. On a page where no content selector matches and which exposes no
  client-side state, so that neither the direct text extraction nor the structured-data
  extraction of \<^verbatim>\<open>otter_downloader.py\<close> finds text, the worker still persists success: its
  second method is the text of the body.
\<close>

theorem worker_body_text_counterexample:
  "content_parts body_page = [] \<and> state_script body_page = None
   \<and> extracted_text body_page = None \<and> direct_api_text body_page = None
   \<and> worker_call info1 (Loaded body_page) ''t2''
       = CallMarkSuccess ''m1'' ''downloads/Standup_m1.txt'' 355"
  by code_simp

section \<open>Properties of the exit status\<close>

lemma stat_failed_save [simp]:
  "stat_failed (get_stats (save s now)) = stat_failed (get_stats s)"
  by (simp add: get_stats_def)








end
